theory Spec2Isabelle
  imports Main
begin

section \<open>Strings\<close>

text \<open>
  A JavaScript string is modelled as a \<open>string\<close>: a list of code units, each below 256
  (the Latin-1 range), so \<open>length\<close> is the \<open>.length\<close> of the source. The embedding covers
  the calls of the plugin on such strings. The two Chinese literals the plugin puts into
  error messages are written as the bytes of their UTF-8 encoding, as the source file
  stores them.
\<close>

definition toLowerCase_char :: "char \<Rightarrow> char" where
  "toLowerCase_char c =
     (let n = (of_char c :: nat)
      in if (65 \<le> n \<and> n \<le> 90) \<or> (192 \<le> n \<and> n \<le> 222 \<and> n \<noteq> 215)
         then char_of (n + 32) else c)"

definition toLowerCase :: "string \<Rightarrow> string" where
  "toLowerCase s = map toLowerCase_char s"

fun startsWith :: "string \<Rightarrow> string \<Rightarrow> bool" where
  "startsWith s [] = True"
| "startsWith [] (p # ps) = False"
| "startsWith (c # cs) (p # ps) = (c = p \<and> startsWith cs ps)"

definition endsWith :: "string \<Rightarrow> string \<Rightarrow> bool" where
  "endsWith s p = startsWith (rev s) (rev p)"

text \<open>\<open>hay.includes(needle)\<close>: some position of \<open>hay\<close> starts an occurrence of \<open>needle\<close>.\<close>

fun includes_str :: "string \<Rightarrow> string \<Rightarrow> bool" where
  "includes_str [] needle = (needle = [])"
| "includes_str (c # cs) needle = (startsWith (c # cs) needle \<or> includes_str cs needle)"

text \<open>\<open>s.slice(1, -1)\<close>: from index 1 up to, not including, the last code unit.\<close>

definition slice_1_m1 :: "string \<Rightarrow> string" where
  "slice_1_m1 s = take (length s - 1 - 1) (drop 1 s)"

text \<open>
  The white space of \<open>String.prototype.trim\<close> and of the regular expression class
  \<open>\s\<close>, below 256: TAB, LF, VT, FF, CR, SPACE and NO-BREAK SPACE.
\<close>

definition isWhiteSpace :: "char \<Rightarrow> bool" where
  "isWhiteSpace c = ((of_char c :: nat) \<in> {9, 10, 11, 12, 13, 32, 160})"

definition trim :: "string \<Rightarrow> string" where
  "trim s = rev (dropWhile isWhiteSpace (rev (dropWhile isWhiteSpace s)))"

text \<open>\<open>s.replace(/\s/g, '')\<close>\<close>

definition strip_whitespace :: "string \<Rightarrow> string" where
  "strip_whitespace s = filter (\<lambda>c. \<not> isWhiteSpace c) s"

text \<open>The decimal digits of a number, as a template literal prints it.\<close>

fun digits_of :: "nat \<Rightarrow> string" where
  "digits_of n =
     (if n < 10 then [char_of (48 + n)]
      else digits_of (n div 10) @ [char_of (48 + n mod 10)])"

fun join_newline :: "string list \<Rightarrow> string" where
  "join_newline [] = []"
| "join_newline [x] = x"
| "join_newline (x # y # ys) = x @ [CHR 0x0A] @ join_newline (y # ys)"

section \<open>Settings and the host\<close>

text \<open>
  The \<open>settings\<close> object, with the fields of \<open>DEFAULT_SETTINGS\<close>. The numeric fields are
  natural numbers, as the sliders of the settings panel produce them.
\<close>

record settings =
  enabled :: bool
  maxRetries :: nat
  baseDelay :: nat
  enableLogging :: bool
  minContentLength :: nat
  checkWhitespace :: bool
  interceptRules :: "string list"
  enableMinTokenRetry :: bool
  minTokenThreshold :: nat

definition DEFAULT_SETTINGS :: settings where
  "DEFAULT_SETTINGS =
     \<lparr>enabled = True, maxRetries = 3, baseDelay = 1000, enableLogging = True,
      minContentLength = 5, checkWhitespace = True, interceptRules = [],
      enableMinTokenRetry = True, minTokenThreshold = 400\<rparr>"

text \<open>A value that \<open>JSON.parse\<close> returns. An object lists each of its keys once.\<close>

datatype json =
  JNull
| JBool bool
| JNum int
| JStr string
| JArr "json list"
| JObj "(string \<times> json) list"

text \<open>
  The built-ins of the JavaScript host that the plugin calls and that can throw:
  \<open>new RegExp(p)\<close> gives \<open>None\<close> where it throws a SyntaxError and otherwise the
  \<open>test\<close> function of the compiled expression; \<open>JSON.parse\<close> gives \<open>None\<close> where it
  throws; \<open>getTokenCountAsyncFn\<close> is the tokenizer imported from the application, absent
  (\<open>None\<close>) when the import failed, and \<open>None\<close> on a text where it throws or rejects.
\<close>

record host =
  RegExp :: "string \<Rightarrow> (string \<Rightarrow> bool) option"
  JSON_parse :: "string \<Rightarrow> json option"
  getTokenCountAsyncFn :: "(string \<Rightarrow> nat option) option"

section \<open>Rule matcher\<close>

text \<open>
  \<open>matchesRule\<close> of the revision with the cancellation-aware delay
  (src/unnamed/part_001). A regular expression that does not compile is caught and
  gives \<open>false\<close>.
\<close>

definition matchesRule :: "host \<Rightarrow> string \<Rightarrow> string \<Rightarrow> bool" where
  "matchesRule h url rule =
     (if rule = [] then False
      else if length rule \<ge> 2 \<and> startsWith rule ''/'' \<and> endsWith rule ''/'' then
        (case RegExp h (slice_1_m1 rule) of
           Some re \<Rightarrow> re url
         | None \<Rightarrow> False)
      else includes_str (toLowerCase url) (toLowerCase rule))"

text \<open>\<open>matchesRule\<close> of src/index.js: the substring test compares case-sensitively.\<close>

definition matchesRule_index_js :: "host \<Rightarrow> string \<Rightarrow> string \<Rightarrow> bool" where
  "matchesRule_index_js h url rule =
     (if rule = [] then False
      else if length rule \<ge> 2 \<and> startsWith rule ''/'' \<and> endsWith rule ''/'' then
        (case RegExp h (slice_1_m1 rule) of
           Some re \<Rightarrow> re url
         | None \<Rightarrow> False)
      else includes_str url rule)"

definition shouldIntercept :: "settings \<Rightarrow> host \<Rightarrow> string \<Rightarrow> bool" where
  "shouldIntercept cfg h url =
     (let rules = interceptRules cfg
      in if rules = [] then False
         else list_ex (\<lambda>rule. matchesRule h url rule) rules)"

section \<open>Content classifier\<close>

definition isEmptyContent :: "settings \<Rightarrow> string \<Rightarrow> bool" where
  "isEmptyContent cfg text =
     (if text = [] then True
      else
        let content = trim text
        in if length content < minContentLength cfg then True
           else if checkWhitespace cfg \<and> length (strip_whitespace content) = 0 then True
           else False)"

text \<open>
  \<open>v?.k\<close> on a parsed value: the property of an object, and \<open>undefined\<close> (\<open>None\<close>) on
  \<open>null\<close>, on a primitive and on an array, none of which has a property of the names
  the plugin reads.
\<close>

fun get_prop :: "json \<Rightarrow> string \<Rightarrow> json option" where
  "get_prop (JObj kvs) k = map_of kvs k"
| "get_prop v k = None"

fun get_prop2 :: "json \<Rightarrow> string \<Rightarrow> string \<Rightarrow> json option" where
  "get_prop2 v k1 k2 = (case get_prop v k1 of Some w \<Rightarrow> get_prop w k2 | None \<Rightarrow> None)"

text \<open>\<open>if (typeof v === 'string') parts.push(v)\<close>\<close>

fun push_string :: "string list \<Rightarrow> json option \<Rightarrow> string list" where
  "push_string parts (Some (JStr s)) = parts @ [s]"
| "push_string parts v = parts"

definition push_choice :: "json \<Rightarrow> string list \<Rightarrow> string list" where
  "push_choice ch parts =
     push_string
       (push_string
         (push_string parts (get_prop2 ch ''message'' ''content''))
         (get_prop2 ch ''delta'' ''content''))
       (get_prop ch ''text'')"

definition push_result :: "json \<Rightarrow> string list \<Rightarrow> string list" where
  "push_result r parts =
     push_string
       (push_string
         (push_string parts (get_prop r ''text''))
         (get_prop r ''content''))
       (get_prop r ''output_text'')"

definition fallbackKeys :: "string list" where
  "fallbackKeys = [''message'', ''content'', ''response'', ''output_text'', ''generated_text'']"

definition extract_parts :: "json \<Rightarrow> string list" where
  "extract_parts obj =
     (let parts0 = (case get_prop obj ''choices'' of
                      Some (JArr chs) \<Rightarrow> fold push_choice chs []
                    | _ \<Rightarrow> []);
          parts1 = (case get_prop obj ''results'' of
                      Some (JArr rs) \<Rightarrow> fold push_result rs parts0
                    | _ \<Rightarrow> parts0);
          parts2 = fold (\<lambda>k parts. push_string parts (get_prop obj k)) fallbackKeys parts1
      in case get_prop obj ''data'' of
           Some (JArr (d # ds)) \<Rightarrow> push_string parts2 (get_prop d ''text'')
         | _ \<Rightarrow> parts2)"

text \<open>
  \<open>extractResponseContent\<close>: \<open>null\<close> (\<open>None\<close>) when \<open>JSON.parse\<close> throws, and when
  no fragment or only empty fragments are found.
\<close>

definition extractResponseContent :: "host \<Rightarrow> string \<Rightarrow> string option" where
  "extractResponseContent h rawText =
     (case JSON_parse h rawText of
        None \<Rightarrow> None
      | Some obj \<Rightarrow>
          (let joined = join_newline (filter (\<lambda>p. p \<noteq> []) (extract_parts obj))
           in if joined = [] then None else Some joined))"

text \<open>
  The fallback estimate \<open>Math.ceil(s.length / 3.35)\<close>, computed on the rationals
  (\<open>3.35 = 335 / 100\<close>).
\<close>

definition ratio_estimate :: "string \<Rightarrow> nat" where
  "ratio_estimate s = (length s * 100 + 334) div 335"

definition getTokenCountFor :: "host \<Rightarrow> string \<Rightarrow> nat" where
  "getTokenCountFor h text =
     (case getTokenCountAsyncFn h of
        Some f \<Rightarrow> (case f text of Some n \<Rightarrow> n | None \<Rightarrow> ratio_estimate text)
      | None \<Rightarrow> ratio_estimate text)"

text \<open>
  The value of the variable \<open>treatAsEmpty\<close> of \<open>enhancedFetch\<close> for a body that
  was read: the length and white space test, then, when \<open>enableMinTokenRetry\<close> is set,
  the token count of \<open>extractResponseContent(text) ?? text\<close> against the threshold.
\<close>

definition token_test :: "settings \<Rightarrow> host \<Rightarrow> string \<Rightarrow> bool" where
  "token_test cfg h text =
     (let candidate = (case extractResponseContent h text of Some c \<Rightarrow> c | None \<Rightarrow> text);
          tokens = getTokenCountFor h candidate
      in tokens < minTokenThreshold cfg)"

definition treatAsEmpty :: "settings \<Rightarrow> host \<Rightarrow> string \<Rightarrow> bool" where
  "treatAsEmpty cfg h text =
     (if isEmptyContent cfg text then True
      else if enableMinTokenRetry cfg then token_test cfg h text
      else False)"

section \<open>Responses, errors and the environment of a call\<close>

text \<open>
  An error object: its \<open>name\<close> and \<open>message\<close>, and the properties \<open>status\<close>,
  \<open>statusText\<close> and \<open>body\<close> that \<open>enhancedFetch\<close> sets on the error it builds for a
  response that is not ok (\<open>None\<close>: the property is not set).
\<close>

record error =
  err_name :: string
  err_message :: string
  err_status :: "nat option"
  err_statusText :: "string option"
  err_body :: "string option"

definition new_Error :: "string \<Rightarrow> error" where
  "new_Error msg =
     \<lparr>err_name = ''Error'', err_message = msg, err_status = None,
      err_statusText = None, err_body = None\<rparr>"

text \<open>\<open>new DOMException('Aborted', 'AbortError')\<close>\<close>

definition AbortError :: error where
  "AbortError =
     \<lparr>err_name = ''AbortError'', err_message = ''Aborted'', err_status = None,
      err_statusText = None, err_body = None\<rparr>"

text \<open>\<open>Error.prototype.toString\<close>\<close>

definition error_toString :: "error \<Rightarrow> string" where
  "error_toString e =
     (if err_name e = [] then err_message e
      else if err_message e = [] then err_name e
      else err_name e @ '': '' @ err_message e)"

definition isAbortError :: "error \<Rightarrow> bool" where
  "isAbortError e =
     (if err_name e = ''AbortError'' then True
      else
        let msg = toLowerCase (if err_message e \<noteq> [] then err_message e else error_toString e)
        in includes_str msg ''aborted'' \<or> includes_str msg ''abort'' \<or>
           includes_str msg ''canceled'' \<or> includes_str msg ''cancelled'')"

text \<open>
  A response of the underlying \<open>fetch\<close>. \<open>body\<close> is what \<open>text()\<close> of a clone of the
  response settles to: \<open>Inr\<close> the text, or \<open>Inl\<close> the error it rejects with.
\<close>

record response =
  ok :: bool
  status :: nat
  statusText :: string
  body :: "error + string"

datatype fetch_outcome = Resolves response | Rejects error

text \<open>
  The points at which \<open>enhancedFetch\<close> is suspended and the caller's signal can fire:
  the awaits of attempt \<open>k\<close> (the underlying call, reading the body, counting tokens; the
  signal is not read between them), and the wait after attempt \<open>k\<close>.
\<close>

datatype phase = InAttempt nat | InDelay nat

record abort_signal =
  aborted_at_call :: bool
  abort_fires :: "phase \<Rightarrow> bool"

text \<open>
  What the surroundings of one call of \<open>enhancedFetch\<close> do: the outcome of the
  underlying \<open>originalFetch(url, options)\<close> at attempt \<open>k\<close>, and \<open>options.signal\<close>
  (\<open>None\<close> when the caller passes none).
\<close>

record call_env =
  originalFetch :: "nat \<Rightarrow> fetch_outcome"
  signal :: "abort_signal option"

text \<open>
  What a call does that its caller and the user can observe, in order: the underlying
  calls, the toasts, the error popups and the waits. A wait carries the attempt it
  follows and its duration; \<open>WaitAbandoned\<close> is a wait that the signal cut short.
  Console logging is left out.
\<close>

datatype event =
  Fetch nat
| RetryToast nat nat nat
| SuccessToast
| BuiltinError string
| BuiltinErrorOf error
| Waited nat nat
| WaitAbandoned nat nat

record run_state =
  aborted :: bool
  trace :: "event list"

definition emit :: "event \<Rightarrow> run_state \<Rightarrow> run_state" where
  "emit e s = s\<lparr>trace := trace s @ [e]\<rparr>"

definition suspend :: "call_env \<Rightarrow> phase \<Rightarrow> run_state \<Rightarrow> run_state" where
  "suspend env ph s =
     (case signal env of
        None \<Rightarrow> s
      | Some g \<Rightarrow> s\<lparr>aborted := aborted s \<or> abort_fires g ph\<rparr>)"

fun is_Fetch :: "event \<Rightarrow> bool" where
  "is_Fetch (Fetch k) = True"
| "is_Fetch e = False"

fun is_error_popup :: "event \<Rightarrow> bool" where
  "is_error_popup (BuiltinError m) = True"
| "is_error_popup (BuiltinErrorOf e) = True"
| "is_error_popup e = False"

fun is_abandoned :: "event \<Rightarrow> bool" where
  "is_abandoned (WaitAbandoned k ms) = True"
| "is_abandoned e = False"


definition calls :: "event list \<Rightarrow> nat" where
  "calls tr = length (filter is_Fetch tr)"

section \<open>Retry controller\<close>

text \<open>
  \<open>delay(ms, signal)\<close> after attempt \<open>k\<close>: without a signal the timer runs out; with a
  signal already aborted it throws at once; otherwise it rejects when the signal fires
  during the wait, and resolves when the timer runs out.
\<close>

definition delay :: "nat \<Rightarrow> call_env \<Rightarrow> nat \<Rightarrow> run_state \<Rightarrow> (error + unit) \<times> run_state" where
  "delay ms env k s =
     (case signal env of
        None \<Rightarrow> (Inr (), emit (Waited k ms) s)
      | Some g \<Rightarrow>
          if aborted s then (Inl AbortError, s)
          else if abort_fires g (InDelay k) then
            (Inl AbortError, emit (WaitAbandoned k ms) (s\<lparr>aborted := True\<rparr>))
          else (Inr (), emit (Waited k ms) s))"

text \<open>\<open>calculateDelay\<close> of src/unnamed/part_001: \<open>Number(settings.baseDelay) || 0\<close>.\<close>

definition calculateDelay :: "settings \<Rightarrow> nat \<Rightarrow> nat" where
  "calculateDelay cfg attempt = (if baseDelay cfg \<noteq> 0 then baseDelay cfg else 0)"


text \<open>
  The branch of \<open>enhancedFetch\<close> for a response that is not ok. Its inner \<open>try\<close> block
  always throws: the rejection of \<open>text()\<close>, or the error \<open>httpError\<close> built with the
  status, the status text and the body. The \<open>catch\<close> of the same \<open>try\<close> receives what
  the block throws and throws a new error in its place.
\<close>

definition httpError :: "response \<Rightarrow> string \<Rightarrow> error" where
  "httpError response errText =
     \<lparr>err_name = ''Error'',
      err_message =
        trim (''HTTP '' @ digits_of (status response) @ '': '' @ statusText response
              @ [CHR 0x0A] @ errText),
      err_status = Some (status response),
      err_statusText = Some (statusText response),
      err_body = Some errText\<rparr>"

definition not_ok_try :: "response \<Rightarrow> error" where
  "not_ok_try response =
     (case body response of
        Inl e \<Rightarrow> e
      | Inr errText \<Rightarrow> httpError response errText)"

definition not_ok_catch :: "response \<Rightarrow> error \<Rightarrow> error" where
  "not_ok_catch response e =
     new_Error (''HTTP '' @ digits_of (status response) @ '': '' @ statusText response)"

definition not_ok_throws :: "response \<Rightarrow> error" where
  "not_ok_throws response = not_ok_catch response (not_ok_try response)"

text \<open>
  The message of the error thrown when the last attempt is classified empty, a template
  literal around the number of attempts, and the message of the error thrown after the
  loop when no error was recorded; both are Chinese text.
\<close>

definition exhausted_msg :: "nat \<Rightarrow> string" where
  "exhausted_msg n =
     [CHR 0xE6, CHR 0xA3, CHR 0x80, CHR 0xE6, CHR 0xB5, CHR 0x8B, CHR 0xE5, CHR 0x88,
      CHR 0xB0, CHR 0xE7, CHR 0xA9, CHR 0xBA, CHR 0xE5, CHR 0x86, CHR 0x85, CHR 0xE5,
      CHR 0xAE, CHR 0xB9, CHR 0xEF, CHR 0xBC, CHR 0x8C, CHR 0xE5, CHR 0xB7, CHR 0xB2,
      CHR 0xE8, CHR 0xBF, CHR 0x9E, CHR 0xE7, CHR 0xBB, CHR 0xAD, CHR 0x20]
     @ digits_of n @
     [CHR 0x20, CHR 0xE6, CHR 0xAC, CHR 0xA1, CHR 0xE5, CHR 0xB0, CHR 0x9D, CHR 0xE8,
      CHR 0xAF, CHR 0x95, CHR 0xE6, CHR 0x97, CHR 0xA0, CHR 0xE6, CHR 0x9C, CHR 0x89,
      CHR 0xE6, CHR 0x95, CHR 0x88, CHR 0xE5, CHR 0x93, CHR 0x8D, CHR 0xE5, CHR 0xBA,
      CHR 0x94, CHR 0xE3, CHR 0x80, CHR 0x82]"

definition limit_reached_msg :: string where
  "limit_reached_msg =
     [CHR 0xE9, CHR 0x87, CHR 0x8D, CHR 0xE8, CHR 0xAF, CHR 0x95, CHR 0xE6, CHR 0xAC,
      CHR 0xA1, CHR 0xE6, CHR 0x95, CHR 0xB0, CHR 0xE5, CHR 0xB7, CHR 0xB2, CHR 0xE8,
      CHR 0xBE, CHR 0xBE, CHR 0xE4, CHR 0xB8, CHR 0x8A, CHR 0xE9, CHR 0x99, CHR 0x90]"

text \<open>
  How the \<open>try\<close> block of one turn of the loop ends: with \<open>return response\<close>, with
  \<open>continue\<close>, or with a throw that the \<open>catch\<close> of the loop receives.
\<close>

datatype completion = Returns response | Continue | Throws error

definition try_block ::
  "settings \<Rightarrow> host \<Rightarrow> call_env \<Rightarrow> nat \<Rightarrow> run_state \<Rightarrow> completion \<times> run_state" where
  "try_block cfg h env attempt s =
     (if aborted s then (Throws AbortError, s)
      else
        let s1 = suspend env (InAttempt attempt) (emit (Fetch attempt) s)
        in case originalFetch env attempt of
             Rejects e \<Rightarrow> (Throws e, s1)
           | Resolves response \<Rightarrow>
               if \<not> ok response then (Throws (not_ok_throws response), s1)
               else
                 (case body response of
                    Inl e \<Rightarrow> (Returns response, s1)
                  | Inr text \<Rightarrow>
                      if treatAsEmpty cfg h text then
                        if attempt < maxRetries cfg then
                          let delayMs = calculateDelay cfg attempt;
                              s2 = emit (RetryToast (attempt + 2) (maxRetries cfg + 1) delayMs) s1
                          in case delay delayMs env attempt s2 of
                               (Inl e, s3) \<Rightarrow> (Throws e, s3)
                             | (Inr u, s3) \<Rightarrow> (Continue, s3)
                        else
                          let msg = exhausted_msg (maxRetries cfg + 1);
                              s2 = (if \<not> aborted s1 then emit (BuiltinError msg) s1 else s1)
                          in (Throws (new_Error msg), s2)
                      else
                        (Returns response, if attempt > 0 then emit SuccessToast s1 else s1)))"

text \<open>
  One turn of the loop, \<open>try\<close> and \<open>catch\<close>: either \<open>enhancedFetch\<close> finishes, with the
  response it returns or the error it throws, or the loop goes on to the next attempt
  with the value of \<open>lastError\<close>.
\<close>

datatype turn = Finished "error + response" | NextAttempt "error option"

definition attempt_turn ::
  "settings \<Rightarrow> host \<Rightarrow> call_env \<Rightarrow> nat \<Rightarrow> error option \<Rightarrow> run_state \<Rightarrow> turn \<times> run_state" where
  "attempt_turn cfg h env attempt lastError s =
     (case try_block cfg h env attempt s of
        (Returns response, s1) \<Rightarrow> (Finished (Inr response), s1)
      | (Continue, s1) \<Rightarrow> (NextAttempt lastError, s1)
      | (Throws error, s1) \<Rightarrow>
          if isAbortError error \<or> aborted s1 then (Finished (Inl error), s1)
          else if attempt < maxRetries cfg then
            let delayMs = calculateDelay cfg attempt;
                s2 = emit (RetryToast (attempt + 2) (maxRetries cfg + 1) delayMs) s1
            in case delay delayMs env attempt s2 of
                 (Inl e, s3) \<Rightarrow> (Finished (Inl e), s3)
               | (Inr u, s3) \<Rightarrow> (NextAttempt (Some error), s3)
          else (NextAttempt (Some error), s1))"

text \<open>The statements after the loop: all attempts failed.\<close>

definition after_loop :: "error option \<Rightarrow> run_state \<Rightarrow> (error + response) \<times> run_state" where
  "after_loop lastError s =
     (let err = (case lastError of Some e \<Rightarrow> e | None \<Rightarrow> new_Error limit_reached_msg);
          s1 = (if \<not> isAbortError err \<and> \<not> aborted s then emit (BuiltinErrorOf err) s else s)
      in (Inl err, s1))"

text \<open>\<open>for (let attempt = 0; attempt <= settings.maxRetries; attempt++)\<close>\<close>

function retry_loop ::
  "settings \<Rightarrow> host \<Rightarrow> call_env \<Rightarrow> nat \<Rightarrow> error option \<Rightarrow> run_state
     \<Rightarrow> (error + response) \<times> run_state" where
  "retry_loop cfg h env attempt lastError s =
     (if attempt \<le> maxRetries cfg then
        (case attempt_turn cfg h env attempt lastError s of
           (Finished r, s1) \<Rightarrow> (r, s1)
         | (NextAttempt lastError1, s1) \<Rightarrow> retry_loop cfg h env (attempt + 1) lastError1 s1)
      else after_loop lastError s)"
  by pat_completeness auto
termination
  by (relation "measure (\<lambda>(cfg, h, env, attempt, lastError, s). maxRetries cfg + 1 - attempt)") auto

text \<open>\<open>return originalFetch(url, options)\<close>: the outcome of the underlying call, as it is.\<close>

definition pass_through :: "call_env \<Rightarrow> run_state \<Rightarrow> (error + response) \<times> run_state" where
  "pass_through env s =
     (case originalFetch env 0 of
        Resolves response \<Rightarrow> (Inr response, emit (Fetch 0) s)
      | Rejects e \<Rightarrow> (Inl e, emit (Fetch 0) s))"

definition initial_state :: "call_env \<Rightarrow> run_state" where
  "initial_state env =
     \<lparr>aborted = (case signal env of Some g \<Rightarrow> aborted_at_call g | None \<Rightarrow> False),
      trace = []\<rparr>"

definition enhancedFetch ::
  "settings \<Rightarrow> host \<Rightarrow> call_env \<Rightarrow> string \<Rightarrow> (error + response) \<times> run_state" where
  "enhancedFetch cfg h env url =
     (if \<not> enabled cfg then pass_through env (initial_state env)
      else if \<not> shouldIntercept cfg h url then pass_through env (initial_state env)
      else retry_loop cfg h env 0 None (initial_state env))"

section \<open>Hypotheses on the surroundings of a call\<close>

text \<open>
  The underlying call returns a response with a success status whose body is read and
  classified empty.
\<close>

definition empty_success :: "settings \<Rightarrow> host \<Rightarrow> fetch_outcome \<Rightarrow> bool" where
  "empty_success cfg h out =
     (case out of
        Resolves r \<Rightarrow> ok r \<and> (case body r of Inr t \<Rightarrow> treatAsEmpty cfg h t | Inl e \<Rightarrow> False)
      | Rejects e \<Rightarrow> False)"

text \<open>The caller passes no signal, or one that is not aborted and never fires.\<close>

definition never_cancelled :: "call_env \<Rightarrow> bool" where
  "never_cancelled env =
     (case signal env of
        None \<Rightarrow> True
      | Some g \<Rightarrow> \<not> aborted_at_call g \<and> (\<forall>ph. \<not> abort_fires g ph))"

text \<open>
  The outcome of an attempt after which \<open>enhancedFetch\<close> goes on to another attempt
  when one is left: a response with a success status whose body is read and classified
  empty, or a failure (a response that is not ok, a rejected call) whose error
  \<open>isAbortError\<close> does not take for a cancellation.
\<close>

definition retryable_outcome :: "settings \<Rightarrow> host \<Rightarrow> fetch_outcome \<Rightarrow> bool" where
  "retryable_outcome cfg h out =
     (case out of
        Rejects e \<Rightarrow> \<not> isAbortError e
      | Resolves r \<Rightarrow>
          if \<not> ok r then \<not> isAbortError (not_ok_throws r)
          else (case body r of Inr t \<Rightarrow> treatAsEmpty cfg h t | Inl e \<Rightarrow> False))"

text \<open>
  The caller passes a signal that is not aborted when \<open>enhancedFetch\<close> is called and
  does not fire before the wait that follows attempt \<open>k\<close>.
\<close>

definition signal_quiet_until_wait :: "call_env \<Rightarrow> nat \<Rightarrow> bool" where
  "signal_quiet_until_wait env k =
     (case signal env of
        None \<Rightarrow> False
      | Some g \<Rightarrow>
          \<not> aborted_at_call g \<and> (\<forall>j\<le>k. \<not> abort_fires g (InAttempt j)) \<and>
          (\<forall>j<k. \<not> abort_fires g (InDelay j)))"

text \<open>The caller's signal fires during the wait that follows attempt \<open>k\<close>.\<close>

definition signal_fires_in_wait :: "call_env \<Rightarrow> nat \<Rightarrow> bool" where
  "signal_fires_in_wait env k =
     (case signal env of Some g \<Rightarrow> abort_fires g (InDelay k) | None \<Rightarrow> False)"

section \<open>Example inputs\<close>

text \<open>
  A host, given by what its built-ins do on the strings of the examples below: the
  empty pattern compiles to an expression that every string matches, the pattern
  \<open>chat\<close> to the test for an occurrence of \<open>chat\<close>, and the pattern \<open>[\<close> does not
  compile; the text \<open>[]\<close> parses to the empty array and the text \<open>hello world\<close> is
  not JSON; no tokenizer was imported.
\<close>

definition example_host :: host where
  "example_host =
     \<lparr>RegExp = (\<lambda>p. if p = [] then Some (\<lambda>u. True)
                     else if p = ''chat'' then Some (\<lambda>u. includes_str u ''chat'')
                     else None),
      JSON_parse = (\<lambda>s. if s = ''[]'' then Some (JArr []) else None),
      getTokenCountAsyncFn = None\<rparr>"

definition example_settings :: settings where
  "example_settings = DEFAULT_SETTINGS\<lparr>interceptRules := [''/api/chat''], maxRetries := 2\<rparr>"

definition example_url :: string where
  "example_url = ''https://host/API/chat''"

definition blank_response :: response where
  "blank_response = \<lparr>ok = True, status = 200, statusText = ''OK'', body = Inr ''  ''\<rparr>"

definition all_blank_env :: call_env where
  "all_blank_env = \<lparr>originalFetch = (\<lambda>k. Resolves blank_response), signal = None\<rparr>"

text \<open>
  The caller's signal fires during the wait that follows attempt 1; every response is
  blank.
\<close>

definition cancel_in_wait_env :: call_env where
  "cancel_in_wait_env =
     \<lparr>originalFetch = (\<lambda>k. Resolves blank_response),
      signal = Some \<lparr>aborted_at_call = False, abort_fires = (\<lambda>ph. ph = InDelay 1)\<rparr>\<rparr>"

text \<open>A response with a success status whose body cannot be read.\<close>

definition unreadable_response :: response where
  "unreadable_response =
     \<lparr>ok = True, status = 200, statusText = ''OK'',
      body = Inl \<lparr>err_name = ''TypeError'', err_message = ''Failed to read'',
                  err_status = None, err_statusText = None, err_body = None\<rparr>\<rparr>"

definition unreadable_second_env :: call_env where
  "unreadable_second_env =
     \<lparr>originalFetch =
        (\<lambda>k. if k = 0 then Resolves blank_response else Resolves unreadable_response),
      signal = None\<rparr>"

text \<open>A response with status 500 and a readable body.\<close>

definition overloaded_response :: response where
  "overloaded_response =
     \<lparr>ok = False, status = 500, statusText = ''Internal Server Error'',
      body = Inr ''overloaded''\<rparr>"

definition overloaded_env :: call_env where
  "overloaded_env = \<lparr>originalFetch = (\<lambda>k. Resolves overloaded_response), signal = None\<rparr>"

text \<open>
  The first response has status 500, and the caller's signal fires during the wait that
  follows it.
\<close>

definition cancel_after_failure_env :: call_env where
  "cancel_after_failure_env =
     \<lparr>originalFetch = (\<lambda>k. Resolves overloaded_response),
      signal = Some \<lparr>aborted_at_call = False, abort_fires = (\<lambda>ph. ph = InDelay 0)\<rparr>\<rparr>"

text \<open>The underlying call rejects, as \<open>fetch\<close> does when the network is down.\<close>

definition fetch_failure :: error where
  "fetch_failure =
     \<lparr>err_name = ''TypeError'', err_message = ''Failed to fetch'', err_status = None,
      err_statusText = None, err_body = None\<rparr>"

definition network_down_env :: call_env where
  "network_down_env = \<lparr>originalFetch = (\<lambda>k. Rejects fetch_failure), signal = None\<rparr>"

section \<open>Properties of the strings and of the rule matcher\<close>

lemma startsWith_iff: "startsWith s p \<longleftrightarrow> (\<exists>post. s = p @ post)"
  by (induction s p rule: startsWith.induct) auto

lemma includes_str_iff: "includes_str hay needle \<longleftrightarrow> (\<exists>pre post. hay = pre @ needle @ post)"
proof (induction hay)
  case Nil
  show ?case by auto
next
  case (Cons c cs)
  show ?case
  proof
    assume "includes_str (c # cs) needle"
    then consider "startsWith (c # cs) needle" | "includes_str cs needle" by auto
    then show "\<exists>pre post. c # cs = pre @ needle @ post"
    proof cases
      case 1
      then obtain post where "c # cs = needle @ post" by (auto simp: startsWith_iff)
      then have "c # cs = [] @ needle @ post" by simp
      then show ?thesis by blast
    next
      case 2
      then obtain pre post where "cs = pre @ needle @ post" using Cons.IH by auto
      then have "c # cs = (c # pre) @ needle @ post" by simp
      then show ?thesis by blast
    qed
  next
    assume "\<exists>pre post. c # cs = pre @ needle @ post"
    then obtain pre post where eq: "c # cs = pre @ needle @ post" by blast
    show "includes_str (c # cs) needle"
    proof (cases pre)
      case Nil
      with eq have "startsWith (c # cs) needle" by (auto simp: startsWith_iff)
      then show ?thesis by simp
    next
      case (Cons p ps)
      with eq have "cs = ps @ needle @ post" by simp
      then have "includes_str cs needle" using Cons.IH by blast
      then show ?thesis by simp
    qed
  qed
qed

lemma slice_wrapped:
  assumes "length rule \<ge> 2" "startsWith rule ''/''" "endsWith rule ''/''"
  shows "rule = ''/'' @ slice_1_m1 rule @ ''/''"
proof -
  from assms(2) obtain r1 where r1: "rule = CHR ''/'' # r1" by (auto simp: startsWith_iff)
  from assms(1) r1 have "r1 \<noteq> []" by auto
  then obtain r2 x where r2: "r1 = r2 @ [x]" by (metis rev_exhaust)
  from assms(3) r1 r2 have "x = CHR ''/''" by (simp add: endsWith_def)
  with r1 r2 show ?thesis by (simp add: slice_1_m1_def)
qed

text \<open>
  C4. With no intercept rule configured, \<open>shouldIntercept\<close> is false for every URL, and
  \<open>enhancedFetch\<close> hands the call to the underlying \<open>fetch\<close>: it makes one underlying
  call and nothing else (no toast, no wait, no popup, no second call), and returns the
  response of that call, or throws the error it rejects with, as it is.
\<close>

theorem shouldIntercept_no_rules:
  "interceptRules cfg = [] \<Longrightarrow>
     shouldIntercept cfg h url = False \<and>
     fst (enhancedFetch cfg h env url) =
       (case originalFetch env 0 of Resolves r \<Rightarrow> Inr r | Rejects e \<Rightarrow> Inl e) \<and>
     trace (snd (enhancedFetch cfg h env url)) = [Fetch 0]"
  by (simp add: shouldIntercept_def enhancedFetch_def pass_through_def initial_state_def
      emit_def split: fetch_outcome.splits)

theorem shouldIntercept_no_rules_witness:
  "shouldIntercept DEFAULT_SETTINGS example_host example_url = False \<and>
   fst (enhancedFetch DEFAULT_SETTINGS example_host network_down_env example_url) =
     Inl fetch_failure \<and>
   trace (snd (enhancedFetch DEFAULT_SETTINGS example_host network_down_env example_url)) =
     [Fetch 0] \<and>
   fst (enhancedFetch DEFAULT_SETTINGS example_host all_blank_env example_url) =
     Inr blank_response \<and>
   trace (snd (enhancedFetch DEFAULT_SETTINGS example_host all_blank_env example_url)) =
     [Fetch 0]"
proof -
  have 1: "interceptRules DEFAULT_SETTINGS = []" by (simp add: DEFAULT_SETTINGS_def)
  have 2: "originalFetch network_down_env 0 = Rejects fetch_failure"
    by (simp add: network_down_env_def)
  have 3: "originalFetch all_blank_env 0 = Resolves blank_response"
    by (simp add: all_blank_env_def)
  from shouldIntercept_no_rules[OF 1, of example_host example_url network_down_env]
    shouldIntercept_no_rules[OF 1, of example_host example_url all_blank_env] 2 3
  show ?thesis by simp
qed

text \<open>
  C5, as amended. A rule that is not empty and is not of the form \<open>/pattern/\<close> matches a
  URL exactly when the lower-cased rule occurs in the lower-cased URL; the empty rule
  matches no URL. In src/index.js the same branch compares without lower-casing.
\<close>

theorem matchesRule_substring:
  assumes "rule \<noteq> []"
    and "\<not> (length rule \<ge> 2 \<and> startsWith rule ''/'' \<and> endsWith rule ''/'')"
  shows "(matchesRule h url rule \<longleftrightarrow>
            (\<exists>pre post. toLowerCase url = pre @ toLowerCase rule @ post)) \<and>
         (matchesRule_index_js h url rule \<longleftrightarrow> (\<exists>pre post. url = pre @ rule @ post)) \<and>
         \<not> matchesRule h url [] \<and> \<not> matchesRule_index_js h url []"
  using assms unfolding matchesRule_def matchesRule_index_js_def
  by (simp only: includes_str_iff if_False if_True simp_thms)

theorem matchesRule_substring_witness:
  "matchesRule example_host example_url ''/api/chat'' \<and>
   toLowerCase example_url = ''https://host'' @ toLowerCase ''/api/chat'' @ [] \<and>
   \<not> matchesRule_index_js example_host example_url ''/api/chat''"
proof -
  have 1: "''/api/chat'' \<noteq> []" by simp
  have 2: "\<not> (length ''/api/chat'' \<ge> 2 \<and> startsWith ''/api/chat'' ''/'' \<and> endsWith ''/api/chat'' ''/'')"
    by (simp add: endsWith_def)
  have 3: "toLowerCase example_url = ''https://host'' @ toLowerCase ''/api/chat'' @ []"
    by code_simp
  have 4: "\<not> includes_str example_url ''/api/chat''"
    by (simp add: example_url_def)
  note th = matchesRule_substring[OF 1 2, of example_host example_url]
  from 3 have "\<exists>pre post. toLowerCase example_url = pre @ toLowerCase ''/api/chat'' @ post"
    by blast
  with th have m: "matchesRule example_host example_url ''/api/chat''" by blast
  have "\<not> (\<exists>pre post. example_url = pre @ ''/api/chat'' @ post)"
    using 4 unfolding includes_str_iff by blast
  with th have "\<not> matchesRule_index_js example_host example_url ''/api/chat''" by blast
  with m 3 show ?thesis by blast
qed

text \<open>
  The claim C5 as it is written fails at the empty rule: it is not of the form
  \<open>/pattern/\<close> and occurs in every URL, and \<open>matchesRule\<close> answers false.
\<close>

theorem matchesRule_empty_rule_counterexample:
  "length ([] :: string) < 2 \<and>
   includes_str (toLowerCase example_url) (toLowerCase []) \<and>
   \<not> matchesRule example_host example_url []"
  by (simp add: matchesRule_def example_url_def toLowerCase_def)

text \<open>
  C9. A rule of at least two code units that starts and ends with \<open>/\<close> is the pattern
  between the two slashes: the pattern is compiled and tested against the URL, and when
  it does not compile the rule does not match. The result is a truth value in every
  case. src/index.js has the same branch.
\<close>

theorem matchesRule_regex:
  assumes "length rule \<ge> 2" "startsWith rule ''/''" "endsWith rule ''/''"
  shows "rule = ''/'' @ slice_1_m1 rule @ ''/'' \<and>
         matchesRule h url rule =
           (case RegExp h (slice_1_m1 rule) of Some re \<Rightarrow> re url | None \<Rightarrow> False) \<and>
         matchesRule_index_js h url rule = matchesRule h url rule"
proof -
  from assms(1) have "rule \<noteq> []" by auto
  with assms show ?thesis using slice_wrapped[OF assms]
    by (simp add: matchesRule_def matchesRule_index_js_def)
qed

theorem matchesRule_regex_witness:
  "matchesRule example_host ''https://host/api/chat'' ''/chat/'' \<and>
   \<not> matchesRule example_host ''https://host/api/generate'' ''/chat/'' \<and>
   RegExp example_host ''['' = None \<and>
   \<not> matchesRule example_host ''https://host/api/chat'' ''/[/''"
proof -
  have a: "length ''/chat/'' \<ge> 2" "startsWith ''/chat/'' ''/''" "endsWith ''/chat/'' ''/''"
    by (simp_all add: endsWith_def)
  have b: "length ''/[/'' \<ge> 2" "startsWith ''/[/'' ''/''" "endsWith ''/[/'' ''/''"
    by (simp_all add: endsWith_def)
  from matchesRule_regex[OF a, of example_host "''https://host/api/chat''"]
    matchesRule_regex[OF a, of example_host "''https://host/api/generate''"]
    matchesRule_regex[OF b, of example_host "''https://host/api/chat''"]
  show ?thesis
    by (simp add: slice_1_m1_def example_host_def)
qed

text \<open>
  C10. On a host where the empty pattern compiles to an expression that every string
  matches, as \<open>new RegExp('')\<close> does, the rule \<open>//\<close> matches every URL (in both
  revisions of \<open>matchesRule\<close>), and as soon as the rules contain \<open>//\<close>,
  \<open>shouldIntercept\<close> is true for every URL and \<open>enhancedFetch\<close>, when enabled, runs
  the retry loop on every request.
\<close>

theorem matchesRule_empty_regex:
  assumes "RegExp h [] = Some re" "\<forall>u. re u"
  shows "matchesRule h url ''//'' \<and> matchesRule_index_js h url ''//'' \<and>
         (''//'' \<in> set (interceptRules cfg) \<longrightarrow>
            shouldIntercept cfg h url \<and>
            (enabled cfg \<longrightarrow>
               enhancedFetch cfg h env url = retry_loop cfg h env 0 None (initial_state env)))"
proof -
  have m: "matchesRule h url ''//''"
    using assms by (simp add: matchesRule_def endsWith_def slice_1_m1_def)
  have m': "matchesRule_index_js h url ''//''"
    using assms by (simp add: matchesRule_index_js_def endsWith_def slice_1_m1_def)
  have i: "shouldIntercept cfg h url" if "''//'' \<in> set (interceptRules cfg)"
    using m that by (auto simp: shouldIntercept_def list_ex_iff Let_def)
  from m m' i show ?thesis
    by (simp add: enhancedFetch_def)
qed

theorem matchesRule_empty_regex_witness:
  "matchesRule example_host example_url ''//'' \<and>
   shouldIntercept (example_settings\<lparr>interceptRules := [''/other'', ''//'']\<rparr>)
     example_host example_url"
proof -
  have 1: "RegExp example_host [] = Some (\<lambda>u. True)" by (simp add: example_host_def)
  have 2: "\<forall>u::string. (\<lambda>u. True) u" by simp
  from matchesRule_empty_regex[OF 1 2, of example_url
      "example_settings\<lparr>interceptRules := [''/other'', ''//'']\<rparr>" all_blank_env]
  show ?thesis by simp
qed

section \<open>Properties of the retry controller\<close>

lemma trace_emit [simp]: "trace (emit e s) = trace s @ [e]"
  by (simp add: emit_def)

lemma aborted_emit [simp]: "aborted (emit e s) = aborted s"
  by (simp add: emit_def)

lemma trace_suspend [simp]: "trace (suspend env ph s) = trace s"
  by (simp add: suspend_def split: option.splits)

lemma calls_append [simp]: "calls (xs @ ys) = calls xs + calls ys"
  by (simp add: calls_def)

lemma calls_Cons [simp]: "calls (e # es) = (if is_Fetch e then 1 else 0) + calls es"
  by (simp add: calls_def)

lemma calls_Nil [simp]: "calls [] = 0"
  by (simp add: calls_def)

lemma delay_cases:
  assumes "delay ms env k s = (x, s1)"
  shows "(x = Inr () \<and> s1 = emit (Waited k ms) s) \<or>
         (x = Inl AbortError \<and> s1 = s \<and> aborted s) \<or>
         (x = Inl AbortError \<and> \<not> aborted s \<and>
            s1 = emit (WaitAbandoned k ms) (s\<lparr>aborted := True\<rparr>))"
  using assms by (auto simp: delay_def split: option.splits if_splits)

subsection \<open>No turn of the loop makes more than one underlying call\<close>

lemma try_block_calls:
  assumes "try_block cfg h env a s = (c, s1)"
  shows "calls (trace s1) \<le> calls (trace s) + 1"
  using assms
  by (auto simp: try_block_def Let_def dest!: delay_cases
      split: if_splits fetch_outcome.splits sum.splits prod.splits)

lemma attempt_turn_calls:
  assumes "attempt_turn cfg h env a le s = (t, s1)"
  shows "calls (trace s1) \<le> calls (trace s) + 1"
  using assms try_block_calls[of cfg h env a s]
  by (auto simp: attempt_turn_def Let_def dest!: delay_cases
      split: if_splits completion.splits sum.splits prod.splits)

lemma after_loop_calls: "calls (trace (snd (after_loop le s))) = calls (trace s)"
  by (simp add: after_loop_def Let_def)

lemma after_loop_Some: "fst (after_loop (Some e) s) = Inl e"
  by (simp add: after_loop_def Let_def)

lemma retry_loop_calls:
  "calls (trace (snd (retry_loop cfg h env a le s)))
     \<le> calls (trace s) + (maxRetries cfg + 1 - a)"
proof (induction cfg h env a le s rule: retry_loop.induct)
  case (1 cfg h env attempt lastError s)
  show ?case
  proof (cases "attempt \<le> maxRetries cfg")
    case False
    then show ?thesis by (subst retry_loop.simps) (simp add: after_loop_calls)
  next
    case True
    obtain t s1 where turn: "attempt_turn cfg h env attempt lastError s = (t, s1)"
      by (cases "attempt_turn cfg h env attempt lastError s")
    note c = attempt_turn_calls[OF turn]
    show ?thesis
    proof (cases t)
      case (Finished r)
      with True turn c show ?thesis by (subst retry_loop.simps) simp
    next
      case (NextAttempt le1)
      from "1.IH"[OF True turn[symmetric] NextAttempt]
      have "calls (trace (snd (retry_loop cfg h env (attempt + 1) le1 s1)))
              \<le> calls (trace s1) + (maxRetries cfg + 1 - (attempt + 1))" .
      with True turn c NextAttempt show ?thesis by (subst retry_loop.simps) simp
    qed
  qed
qed

subsection \<open>Every response classified empty\<close>

lemma suspend_never_cancelled: "never_cancelled env \<Longrightarrow> suspend env ph s = s"
  by (auto simp: never_cancelled_def suspend_def split: option.splits)

lemma delay_never_cancelled:
  "never_cancelled env \<Longrightarrow> \<not> aborted s \<Longrightarrow> delay ms env k s = (Inr (), emit (Waited k ms) s)"
  by (auto simp: never_cancelled_def delay_def split: option.splits)

lemma empty_successE:
  assumes "empty_success cfg h out"
  obtains r t where "out = Resolves r" "ok r" "body r = Inr t" "treatAsEmpty cfg h t"
  using assms by (auto simp: empty_success_def split: fetch_outcome.splits sum.splits)

lemma try_block_empty_retry:
  assumes "empty_success cfg h (originalFetch env a)" "never_cancelled env" "\<not> aborted s"
    and "a < maxRetries cfg"
  shows "try_block cfg h env a s =
           (Continue,
            emit (Waited a (calculateDelay cfg a))
              (emit (RetryToast (a + 2) (maxRetries cfg + 1) (calculateDelay cfg a))
                (emit (Fetch a) s)))"
proof -
  from assms(1) obtain r t where
    "originalFetch env a = Resolves r" "ok r" "body r = Inr t" "treatAsEmpty cfg h t"
    by (rule empty_successE)
  with assms(2-4) show ?thesis
    by (simp add: try_block_def Let_def suspend_never_cancelled delay_never_cancelled)
qed

lemma try_block_empty_last:
  assumes "empty_success cfg h (originalFetch env a)" "never_cancelled env" "\<not> aborted s"
    and "a = maxRetries cfg"
  shows "try_block cfg h env a s =
           (Throws (new_Error (exhausted_msg (maxRetries cfg + 1))),
            emit (BuiltinError (exhausted_msg (maxRetries cfg + 1))) (emit (Fetch a) s))"
proof -
  from assms(1) obtain r t where
    "originalFetch env a = Resolves r" "ok r" "body r = Inr t" "treatAsEmpty cfg h t"
    by (rule empty_successE)
  with assms(2-4) show ?thesis
    by (simp add: try_block_def Let_def suspend_never_cancelled)
qed

lemma turn_empty_retry:
  assumes "empty_success cfg h (originalFetch env a)" "never_cancelled env" "\<not> aborted s"
    and "a < maxRetries cfg"
  shows "attempt_turn cfg h env a le s =
           (NextAttempt le,
            emit (Waited a (calculateDelay cfg a))
              (emit (RetryToast (a + 2) (maxRetries cfg + 1) (calculateDelay cfg a))
                (emit (Fetch a) s)))"
  by (simp add: attempt_turn_def try_block_empty_retry[OF assms])

lemma turn_empty_last:
  assumes "empty_success cfg h (originalFetch env a)" "never_cancelled env" "\<not> aborted s"
    and "a = maxRetries cfg"
  shows "attempt_turn cfg h env a le s =
           (if isAbortError (new_Error (exhausted_msg (maxRetries cfg + 1)))
            then Finished (Inl (new_Error (exhausted_msg (maxRetries cfg + 1))))
            else NextAttempt (Some (new_Error (exhausted_msg (maxRetries cfg + 1)))),
            emit (BuiltinError (exhausted_msg (maxRetries cfg + 1))) (emit (Fetch a) s))"
  unfolding attempt_turn_def try_block_empty_last[OF assms] using assms(3,4) by simp

lemma retry_loop_all_empty:
  assumes "\<forall>k\<le>maxRetries cfg. empty_success cfg h (originalFetch env k)"
    and "never_cancelled env"
  shows "\<not> aborted s \<Longrightarrow> a + d = maxRetries cfg \<Longrightarrow>
         calls (trace (snd (retry_loop cfg h env a le s))) = calls (trace s) + d + 1 \<and>
         fst (retry_loop cfg h env a le s) = Inl (new_Error (exhausted_msg (maxRetries cfg + 1)))"
proof (induction d arbitrary: a le s)
  case 0
  then have a: "a = maxRetries cfg" by simp
  with assms(1) have es: "empty_success cfg h (originalFetch env a)" by simp
  note turn = turn_empty_last[OF es assms(2) "0.prems"(1) a]
  show ?case
  proof (cases "isAbortError (new_Error (exhausted_msg (maxRetries cfg + 1)))")
    case True
    with turn a show ?thesis
      by (subst (1 2) retry_loop.simps) simp
  next
    case False
    have next_loop: "retry_loop cfg h env (a + 1) le' s' = after_loop le' s'" for le' s'
      using a by (subst retry_loop.simps) simp
    from False turn a show ?thesis
      by (subst (1 2) retry_loop.simps) (simp add: next_loop after_loop_Some after_loop_calls)
  qed
next
  case (Suc d)
  then have lt: "a < maxRetries cfg" by simp
  with assms(1) have es: "empty_success cfg h (originalFetch env a)" by simp
  note turn = turn_empty_retry[OF es assms(2) Suc.prems(1) lt]
  define s1 where "s1 = emit (Waited a (calculateDelay cfg a))
              (emit (RetryToast (a + 2) (maxRetries cfg + 1) (calculateDelay cfg a))
                (emit (Fetch a) s))"
  have na: "\<not> aborted s1" using Suc.prems(1) by (simp add: s1_def)
  have ad: "(a + 1) + d = maxRetries cfg" using Suc.prems(2) by simp
  note ih = Suc.IH[OF na ad, of le]
  have step: "retry_loop cfg h env a le s = retry_loop cfg h env (a + 1) le s1"
    using lt turn by (subst retry_loop.simps) (simp add: s1_def)
  have "calls (trace s1) = calls (trace s) + 1" by (simp add: s1_def)
  with ih step show ?case by simp
qed

lemma initial_state_never_cancelled: "never_cancelled env \<Longrightarrow> \<not> aborted (initial_state env)"
  by (auto simp: never_cancelled_def initial_state_def split: option.splits)

text \<open>
  C1, as amended. With the plugin enabled, a URL that the rules intercept, and every
  underlying call returning a success status with a body classified empty,
  \<open>enhancedFetch\<close> makes at most \<open>maxRetries + 1\<close> underlying calls; when the caller
  passes no signal, or one that never fires, it makes exactly \<open>maxRetries + 1\<close> calls
  and throws the error that reports \<open>maxRetries + 1\<close> attempts without valid content.
\<close>

theorem enhancedFetch_all_empty:
  assumes "enabled cfg" and "shouldIntercept cfg h url"
    and "\<forall>k\<le>maxRetries cfg. empty_success cfg h (originalFetch env k)"
  shows "calls (trace (snd (enhancedFetch cfg h env url))) \<le> maxRetries cfg + 1 \<and>
         (never_cancelled env \<longrightarrow>
            calls (trace (snd (enhancedFetch cfg h env url))) = maxRetries cfg + 1 \<and>
            fst (enhancedFetch cfg h env url) =
              Inl (new_Error (exhausted_msg (maxRetries cfg + 1))))"
proof -
  have run: "enhancedFetch cfg h env url = retry_loop cfg h env 0 None (initial_state env)"
    using assms(1,2) by (simp add: enhancedFetch_def)
  have t0: "trace (initial_state env) = []" by (simp add: initial_state_def)
  have bound: "calls (trace (snd (enhancedFetch cfg h env url))) \<le> maxRetries cfg + 1"
    using retry_loop_calls[of cfg h env 0 None "initial_state env"] by (simp add: run t0)
  have exact: "calls (trace (snd (enhancedFetch cfg h env url))) = maxRetries cfg + 1 \<and>
            fst (enhancedFetch cfg h env url) =
              Inl (new_Error (exhausted_msg (maxRetries cfg + 1)))"
    if nc: "never_cancelled env"
    using retry_loop_all_empty[OF assms(3) nc initial_state_never_cancelled[OF nc],
        of 0 "maxRetries cfg" None]
    by (simp add: run t0)
  from bound exact show ?thesis by blast
qed

theorem enhancedFetch_all_empty_witness:
  "calls (trace (snd (enhancedFetch example_settings example_host all_blank_env example_url))) = 3 \<and>
   fst (enhancedFetch example_settings example_host all_blank_env example_url) =
     Inl (new_Error (exhausted_msg 3))"
proof -
  have 1: "enabled example_settings"
    by (simp add: example_settings_def DEFAULT_SETTINGS_def)
  have 2: "shouldIntercept example_settings example_host example_url"
    by code_simp
  have "empty_success example_settings example_host (Resolves blank_response)"
    by code_simp
  then have 3: "\<forall>k\<le>maxRetries example_settings.
      empty_success example_settings example_host (originalFetch all_blank_env k)"
    by (simp add: all_blank_env_def)
  have 4: "never_cancelled all_blank_env"
    by (simp add: never_cancelled_def all_blank_env_def)
  have 5: "maxRetries example_settings = 2"
    by (simp add: example_settings_def)
  from enhancedFetch_all_empty[OF 1 2 3] 4 5 show ?thesis by simp
qed

lemma cancel_in_wait_run:
  "enhancedFetch example_settings example_host cancel_in_wait_env example_url =
     (Inl AbortError,
      \<lparr>aborted = True,
       trace = [Fetch 0, RetryToast 2 3 1000, Waited 0 1000,
                Fetch 1, RetryToast 3 3 1000, WaitAbandoned 1 1000]\<rparr>)"
  by code_simp

text \<open>
  The claim C1 as it is written fails when the caller cancels: with two retries
  configured and every response blank, a signal that fires during the wait after
  attempt 1 ends the call after two underlying calls, with the AbortError.
\<close>

theorem cancelled_all_empty_counterexample:
  "enabled example_settings \<and>
   shouldIntercept example_settings example_host example_url \<and>
   maxRetries example_settings = 2 \<and>
   empty_success example_settings example_host (originalFetch cancel_in_wait_env 0) \<and>
   empty_success example_settings example_host (originalFetch cancel_in_wait_env 1) \<and>
   empty_success example_settings example_host (originalFetch cancel_in_wait_env 2) \<and>
   calls (trace (snd (enhancedFetch example_settings example_host cancel_in_wait_env example_url)))
     = 2 \<and>
   fst (enhancedFetch example_settings example_host cancel_in_wait_env example_url) = Inl AbortError"
proof -
  have 1: "enabled example_settings"
    by (simp add: example_settings_def DEFAULT_SETTINGS_def)
  have 2: "shouldIntercept example_settings example_host example_url"
    by code_simp
  have 3: "maxRetries example_settings = 2"
    by (simp add: example_settings_def)
  have "empty_success example_settings example_host (Resolves blank_response)"
    by code_simp
  then have 4: "empty_success example_settings example_host (originalFetch cancel_in_wait_env k)"
    for k by (simp add: cancel_in_wait_env_def)
  have 5: "calls (trace (snd (enhancedFetch example_settings example_host cancel_in_wait_env
      example_url))) = 2"
    by (simp add: cancel_in_wait_run)
  have 6: "fst (enhancedFetch example_settings example_host cancel_in_wait_env example_url)
      = Inl AbortError"
    by (simp add: cancel_in_wait_run)
  from 1 2 3 4 5 6 show ?thesis by blast
qed

subsection \<open>What the \<open>try\<close> block adds to the trace\<close>

lemma try_block_aborted: "aborted s \<Longrightarrow> try_block cfg h env a s = (Throws AbortError, s)"
  by (simp add: try_block_def)

lemma try_block_unreadable:
  assumes "\<not> aborted s" "originalFetch env a = Resolves r" "ok r" "body r = Inl e"
  shows "try_block cfg h env a s = (Returns r, suspend env (InAttempt a) (emit (Fetch a) s))"
  using assms by (simp add: try_block_def Let_def)

lemma try_block_fetches:
  assumes "try_block cfg h env a s = (c, s1)" "e \<in> set (trace s1)" "is_Fetch e"
  shows "e \<in> set (trace s) \<or> e = Fetch a"
  using assms
  by (auto simp: try_block_def Let_def dest!: delay_cases
      split: if_splits fetch_outcome.splits sum.splits prod.splits)

lemma try_block_calls_exact:
  assumes "try_block cfg h env a s = (c, s1)" "\<not> aborted s"
  shows "calls (trace s1) = calls (trace s) + 1"
  using assms
  by (auto simp: try_block_def Let_def dest!: delay_cases
      split: if_splits fetch_outcome.splits sum.splits prod.splits)

lemma try_block_abandoned:
  assumes "try_block cfg h env a s = (c, s1)" "e \<in> set (trace s1)" "is_abandoned e"
  shows "e \<in> set (trace s) \<or>
         (c = Throws AbortError \<and> a < maxRetries cfg \<and> \<not> aborted s \<and>
          e = WaitAbandoned a (calculateDelay cfg a) \<and> last (trace s1) = e)"
  using assms
  by (auto simp: try_block_def Let_def dest!: delay_cases
      split: if_splits fetch_outcome.splits sum.splits prod.splits)

lemma try_block_popup:
  assumes "try_block cfg h env a s = (c, s1)" "e \<in> set (trace s1)" "is_error_popup e"
  shows "e \<in> set (trace s) \<or> \<not> a < maxRetries cfg"
  using assms
  by (auto simp: try_block_def Let_def dest!: delay_cases
      split: if_splits fetch_outcome.splits sum.splits prod.splits)



subsection \<open>What one turn of the loop adds to the trace\<close>

lemma isAbortError_AbortError [simp]: "isAbortError AbortError"
  by (simp add: isAbortError_def AbortError_def)

lemma attempt_turn_aborted:
  "aborted s \<Longrightarrow> attempt_turn cfg h env a le s = (Finished (Inl AbortError), s)"
  by (simp add: attempt_turn_def try_block_aborted)

lemma attempt_turn_unreadable:
  assumes "\<not> aborted s" "originalFetch env a = Resolves r" "ok r" "body r = Inl e"
  shows "attempt_turn cfg h env a le s =
           (Finished (Inr r), suspend env (InAttempt a) (emit (Fetch a) s))"
  by (simp add: attempt_turn_def try_block_unreadable[OF assms])

lemma attempt_turn_fetches:
  assumes "attempt_turn cfg h env a le s = (t, s1)" "e \<in> set (trace s1)" "is_Fetch e"
  shows "e \<in> set (trace s) \<or> e = Fetch a"
proof -
  obtain c s0 where tb: "try_block cfg h env a s = (c, s0)"
    by (cases "try_block cfg h env a s")
  have "e \<in> set (trace s0)"
    using assms tb
    by (auto simp: attempt_turn_def Let_def dest!: delay_cases
        split: if_splits completion.splits sum.splits prod.splits)
  with try_block_fetches[OF tb _ assms(3)] show ?thesis by blast
qed

lemma attempt_turn_next_calls:
  assumes "attempt_turn cfg h env a le s = (NextAttempt le1, s1)"
  shows "calls (trace s1) = calls (trace s) + 1"
proof -
  obtain c s0 where tb: "try_block cfg h env a s = (c, s0)"
    by (cases "try_block cfg h env a s")
  have na: "\<not> aborted s"
    using assms by (auto simp: attempt_turn_aborted)
  have "calls (trace s1) = calls (trace s0)"
    using assms tb
    by (auto simp: attempt_turn_def Let_def dest!: delay_cases
        split: if_splits completion.splits sum.splits prod.splits)
  with try_block_calls_exact[OF tb na] show ?thesis by simp
qed

lemma attempt_turn_abandoned:
  assumes "attempt_turn cfg h env a le s = (t, s1)" "e \<in> set (trace s1)" "is_abandoned e"
  shows "e \<in> set (trace s) \<or>
         (t = Finished (Inl AbortError) \<and> a < maxRetries cfg \<and>
          e = WaitAbandoned a (calculateDelay cfg a) \<and> last (trace s1) = e \<and>
          calls (trace s1) = calls (trace s) + 1)"
proof -
  obtain c s0 where tb: "try_block cfg h env a s = (c, s0)"
    by (cases "try_block cfg h env a s")
  show ?thesis
  proof (cases "aborted s")
    case True
    with assms show ?thesis by (simp add: attempt_turn_aborted)
  next
    case False
    note cs = try_block_calls_exact[OF tb False]
    show ?thesis
    proof (cases "e \<in> set (trace s0)")
      case True
      from try_block_abandoned[OF tb True assms(3)] assms(1) tb cs show ?thesis
        by (auto simp: attempt_turn_def)
    next
      case False
      with assms tb cs show ?thesis
        by (auto simp: attempt_turn_def Let_def dest!: delay_cases
            split: if_splits completion.splits sum.splits prod.splits)
    qed
  qed
qed

lemma attempt_turn_popup:
  assumes "attempt_turn cfg h env a le s = (t, s1)" "e \<in> set (trace s1)" "is_error_popup e"
  shows "e \<in> set (trace s) \<or> \<not> a < maxRetries cfg"
proof -
  obtain c s0 where tb: "try_block cfg h env a s = (c, s0)"
    by (cases "try_block cfg h env a s")
  have "e \<in> set (trace s0)"
    using assms tb
    by (auto simp: attempt_turn_def Let_def dest!: delay_cases
        split: if_splits completion.splits sum.splits prod.splits)
  with try_block_popup[OF tb _ assms(3)] show ?thesis by blast
qed



subsection \<open>A wait cut short by the signal\<close>

lemma after_loop_trace:
  "e \<in> set (trace (snd (after_loop le s))) \<Longrightarrow> e \<in> set (trace s) \<or> is_error_popup e"
  by (auto simp: after_loop_def Let_def split: if_splits)

lemma retry_loop_abandoned:
  "retry_loop cfg h env a le s = (res, s') \<Longrightarrow>
   WaitAbandoned k ms \<in> set (trace s') \<Longrightarrow>
   calls (trace s) = a \<Longrightarrow>
   \<forall>e\<in>set (trace s). \<not> is_abandoned e \<and> (is_Fetch e \<longrightarrow> (\<exists>j<a. e = Fetch j)) \<and>
       (a \<le> maxRetries cfg \<longrightarrow> \<not> is_error_popup e) \<Longrightarrow>
   res = Inl AbortError \<and> last (trace s') = WaitAbandoned k ms \<and>
   calls (trace s') = k + 1 \<and> Fetch (k + 1) \<notin> set (trace s') \<and>
   (\<forall>e\<in>set (trace s'). \<not> is_error_popup e)"
proof (induction cfg h env a le s rule: retry_loop.induct)
  case (1 cfg h env attempt lastError s)
  note run = "1.prems"(1) and ab = "1.prems"(2) and cs = "1.prems"(3) and inv = "1.prems"(4)
  show ?case
  proof (cases "attempt \<le> maxRetries cfg")
    case False
    with run have "s' = snd (after_loop lastError s)"
      by (subst (asm) retry_loop.simps) auto
    with ab after_loop_trace[of "WaitAbandoned k ms" lastError s] inv
    show ?thesis by auto
  next
    case True
    obtain t s1 where turn: "attempt_turn cfg h env attempt lastError s = (t, s1)"
      by (cases "attempt_turn cfg h env attempt lastError s")
    show ?thesis
    proof (cases t)
      case (Finished r)
      with True turn run have eq: "res = r" "s' = s1"
        by (subst (asm) retry_loop.simps, simp)+
      from attempt_turn_abandoned[OF turn, of "WaitAbandoned k ms"] ab eq inv
      have fin: "t = Finished (Inl AbortError)" and lt: "attempt < maxRetries cfg"
        and k: "WaitAbandoned k ms = WaitAbandoned attempt (calculateDelay cfg attempt)"
        and lst: "last (trace s1) = WaitAbandoned k ms"
        and c1: "calls (trace s1) = calls (trace s) + 1"
        by auto
      from k have ka: "k = attempt" by simp
      have nofetch: "Fetch (k + 1) \<notin> set (trace s1)"
      proof
        assume f: "Fetch (k + 1) \<in> set (trace s1)"
        from attempt_turn_fetches[OF turn f] inv ka show False by auto
      qed
      have nopopup: "\<not> is_error_popup e" if "e \<in> set (trace s1)" for e
      proof
        assume p: "is_error_popup e"
        from attempt_turn_popup[OF turn that p] p inv True lt show False by auto
      qed
      from fin Finished eq lst c1 cs ka nofetch nopopup show ?thesis by auto
    next
      case (NextAttempt le1)
      with True turn run have run1: "retry_loop cfg h env (attempt + 1) le1 s1 = (res, s')"
        by (subst (asm) retry_loop.simps) simp
      have c1: "calls (trace s1) = attempt + 1"
        using attempt_turn_next_calls[OF turn[unfolded NextAttempt]] cs by simp
      have inv1: "\<forall>e\<in>set (trace s1). \<not> is_abandoned e \<and>
          (is_Fetch e \<longrightarrow> (\<exists>j<attempt + 1. e = Fetch j)) \<and>
          (attempt + 1 \<le> maxRetries cfg \<longrightarrow> \<not> is_error_popup e)"
      proof (intro ballI conjI impI)
        fix e assume e: "e \<in> set (trace s1)"
        show "\<not> is_abandoned e"
        proof
          assume ab1: "is_abandoned e"
          from attempt_turn_abandoned[OF turn e ab1] ab1 inv NextAttempt show False by auto
        qed
        show "\<exists>j<attempt + 1. e = Fetch j" if "is_Fetch e"
          using attempt_turn_fetches[OF turn e that] inv that by (auto simp: less_Suc_eq)
        show "\<not> is_error_popup e" if "attempt + 1 \<le> maxRetries cfg"
        proof
          assume p: "is_error_popup e"
          from attempt_turn_popup[OF turn e p] p inv that show False by auto
        qed
      qed
      from "1.IH"[OF True turn[symmetric] NextAttempt run1 ab c1 inv1] show ?thesis .
    qed
  qed
qed

lemma delay_fired:
  assumes "delay ms env k s = (x, s1)" "WaitAbandoned k' ms' \<in> set (trace s1)"
  shows "WaitAbandoned k' ms' \<in> set (trace s) \<or> signal_fires_in_wait env k'"
  using assms
  by (auto simp: delay_def signal_fires_in_wait_def split: option.splits if_splits)

lemma try_block_fired:
  assumes "try_block cfg h env a s = (c, s1)" "WaitAbandoned k ms \<in> set (trace s1)"
  shows "WaitAbandoned k ms \<in> set (trace s) \<or> signal_fires_in_wait env k"
  using assms
  by (auto simp: try_block_def Let_def dest: delay_fired
      split: if_splits fetch_outcome.splits sum.splits prod.splits)

lemma attempt_turn_fired:
  assumes "attempt_turn cfg h env a le s = (t, s1)" "WaitAbandoned k ms \<in> set (trace s1)"
  shows "WaitAbandoned k ms \<in> set (trace s) \<or> signal_fires_in_wait env k"
proof -
  obtain c s0 where tb: "try_block cfg h env a s = (c, s0)"
    by (cases "try_block cfg h env a s")
  have "WaitAbandoned k ms \<in> set (trace s0) \<or> signal_fires_in_wait env k"
    using assms tb
    by (auto simp: attempt_turn_def Let_def dest: delay_fired
        split: if_splits completion.splits sum.splits prod.splits)
  with try_block_fired[OF tb] show ?thesis by blast
qed

lemma retry_loop_fired:
  "WaitAbandoned k ms \<in> set (trace (snd (retry_loop cfg h env a le s))) \<Longrightarrow>
   WaitAbandoned k ms \<in> set (trace s) \<or> signal_fires_in_wait env k"
proof (induction cfg h env a le s rule: retry_loop.induct)
  case (1 cfg h env attempt lastError s)
  note ab = "1.prems"
  show ?case
  proof (cases "attempt \<le> maxRetries cfg")
    case False
    then have "retry_loop cfg h env attempt lastError s = after_loop lastError s"
      by (subst retry_loop.simps) simp
    with ab show ?thesis
      by (auto dest!: after_loop_trace)
  next
    case True
    obtain t s1 where turn: "attempt_turn cfg h env attempt lastError s = (t, s1)"
      by (cases "attempt_turn cfg h env attempt lastError s")
    note step = attempt_turn_fired[OF turn, of k ms]
    show ?thesis
    proof (cases t)
      case (Finished r)
      with True turn have "retry_loop cfg h env attempt lastError s = (r, s1)"
        by (subst retry_loop.simps) simp
      with ab step show ?thesis by simp
    next
      case (NextAttempt le1)
      with True turn have "retry_loop cfg h env attempt lastError s =
          retry_loop cfg h env (attempt + 1) le1 s1"
        by (subst retry_loop.simps) simp
      with ab have "WaitAbandoned k ms \<in> set (trace (snd (retry_loop cfg h env (attempt + 1) le1 s1)))"
        by simp
      from "1.IH"[OF True turn[symmetric] NextAttempt this] step show ?thesis by blast
    qed
  qed
qed

lemma delay_signal_fires:
  assumes "signal env = Some g" "\<not> aborted s" "abort_fires g (InDelay k)"
  shows "delay ms env k s = (Inl AbortError, emit (WaitAbandoned k ms) (s\<lparr>aborted := True\<rparr>))"
  using assms by (simp add: delay_def)

lemma pass_through_trace: "trace (snd (pass_through env s)) = trace s @ [Fetch 0]"
  by (simp add: pass_through_def split: fetch_outcome.splits)

lemma wait_abandoned_is_last:
  assumes "WaitAbandoned k ms \<in> set (trace (snd (enhancedFetch cfg h env url)))"
  shows "signal_fires_in_wait env k \<and>
         fst (enhancedFetch cfg h env url) = Inl AbortError \<and>
         last (trace (snd (enhancedFetch cfg h env url))) = WaitAbandoned k ms \<and>
         calls (trace (snd (enhancedFetch cfg h env url))) = k + 1 \<and>
         Fetch (k + 1) \<notin> set (trace (snd (enhancedFetch cfg h env url))) \<and>
         (\<forall>e\<in>set (trace (snd (enhancedFetch cfg h env url))). \<not> is_error_popup e)"
proof (cases "enabled cfg \<and> shouldIntercept cfg h url")
  case False
  then have "enhancedFetch cfg h env url = pass_through env (initial_state env)"
    by (auto simp: enhancedFetch_def)
  with assms show ?thesis by (simp add: pass_through_trace initial_state_def)
next
  case True
  then have run: "enhancedFetch cfg h env url = retry_loop cfg h env 0 None (initial_state env)"
    by (simp add: enhancedFetch_def)
  obtain res s' where r: "retry_loop cfg h env 0 None (initial_state env) = (res, s')"
    by (cases "retry_loop cfg h env 0 None (initial_state env)")
  have fired: "signal_fires_in_wait env k"
    using retry_loop_fired[of k ms cfg h env 0 None "initial_state env"] assms run
    by (simp add: initial_state_def)
  from retry_loop_abandoned[OF r, of k ms] assms run r fired show ?thesis
    by (simp add: initial_state_def)
qed

subsection \<open>The signal fires during a wait\<close>

lemma suspend_quiet:
  assumes "signal env = Some g" "\<not> abort_fires g ph"
  shows "suspend env ph s = s"
  using assms by (simp add: suspend_def)

lemma delay_quiet:
  assumes "signal env = Some g" "\<not> aborted s" "\<not> abort_fires g (InDelay k)"
  shows "delay ms env k s = (Inr (), emit (Waited k ms) s)"
  using assms by (simp add: delay_def)

lemma turn_retryable_wait:
  assumes sg: "signal env = Some g" and na: "\<not> aborted s"
    and qa: "\<not> abort_fires g (InAttempt a)" and qd: "\<not> abort_fires g (InDelay a)"
    and lt: "a < maxRetries cfg" and ro: "retryable_outcome cfg h (originalFetch env a)"
  shows "\<exists>le1 s1. attempt_turn cfg h env a le s = (NextAttempt le1, s1) \<and> \<not> aborted s1"
proof (cases "originalFetch env a")
  case (Rejects e)
  with ro have "\<not> isAbortError e" by (simp add: retryable_outcome_def)
  with Rejects na lt show ?thesis
    by (simp add: attempt_turn_def try_block_def Let_def suspend_quiet[OF sg qa]
        delay_quiet[OF sg _ qd])
next
  case (Resolves r)
  show ?thesis
  proof (cases "ok r")
    case False
    with ro Resolves have "\<not> isAbortError (not_ok_throws r)"
      by (simp add: retryable_outcome_def)
    with Resolves False na lt show ?thesis
      by (simp add: attempt_turn_def try_block_def Let_def suspend_quiet[OF sg qa]
          delay_quiet[OF sg _ qd])
  next
    case True
    with ro Resolves obtain t where "body r = Inr t" "treatAsEmpty cfg h t"
      by (auto simp: retryable_outcome_def split: sum.splits)
    with Resolves True na lt show ?thesis
      by (simp add: attempt_turn_def try_block_def Let_def suspend_quiet[OF sg qa]
          delay_quiet[OF sg _ qd])
  qed
qed

lemma turn_retryable_abandon:
  assumes sg: "signal env = Some g" and na: "\<not> aborted s"
    and qa: "\<not> abort_fires g (InAttempt a)" and fd: "abort_fires g (InDelay a)"
    and lt: "a < maxRetries cfg" and ro: "retryable_outcome cfg h (originalFetch env a)"
  shows "\<exists>s1. attempt_turn cfg h env a le s = (Finished (Inl AbortError), s1) \<and>
           WaitAbandoned a (calculateDelay cfg a) \<in> set (trace s1)"
proof (cases "originalFetch env a")
  case (Rejects e)
  with ro have "\<not> isAbortError e" by (simp add: retryable_outcome_def)
  with Rejects na lt show ?thesis
    by (simp add: attempt_turn_def try_block_def Let_def suspend_quiet[OF sg qa]
        delay_signal_fires[OF sg _ fd])
next
  case (Resolves r)
  show ?thesis
  proof (cases "ok r")
    case False
    with ro Resolves have "\<not> isAbortError (not_ok_throws r)"
      by (simp add: retryable_outcome_def)
    with Resolves False na lt show ?thesis
      by (simp add: attempt_turn_def try_block_def Let_def suspend_quiet[OF sg qa]
          delay_signal_fires[OF sg _ fd])
  next
    case True
    with ro Resolves obtain t where "body r = Inr t" "treatAsEmpty cfg h t"
      by (auto simp: retryable_outcome_def split: sum.splits)
    with Resolves True na lt show ?thesis
      by (simp add: attempt_turn_def try_block_def Let_def suspend_quiet[OF sg qa]
          delay_signal_fires[OF sg _ fd])
  qed
qed

lemma retry_loop_reaches_wait:
  assumes sg: "signal env = Some g"
    and qa: "\<forall>j\<le>k. \<not> abort_fires g (InAttempt j)"
    and qd: "\<forall>j<k. \<not> abort_fires g (InDelay j)"
    and fd: "abort_fires g (InDelay k)"
    and lt: "k < maxRetries cfg"
    and ro: "\<forall>j\<le>k. retryable_outcome cfg h (originalFetch env j)"
  shows "\<not> aborted s \<Longrightarrow> a + d = k \<Longrightarrow>
         WaitAbandoned k (calculateDelay cfg k) \<in> set (trace (snd (retry_loop cfg h env a le s)))"
proof (induction d arbitrary: a le s)
  case 0
  then have a: "a = k" by simp
  from turn_retryable_abandon[OF sg "0.prems"(1), of a cfg h le] qa fd lt ro a
  obtain s1 where "attempt_turn cfg h env a le s = (Finished (Inl AbortError), s1)"
    "WaitAbandoned a (calculateDelay cfg a) \<in> set (trace s1)" by auto
  with a lt show ?case by (subst retry_loop.simps) simp
next
  case (Suc d)
  then have ak: "a < k" by simp
  from turn_retryable_wait[OF sg Suc.prems(1), of a cfg h le] qa qd lt ro ak
  obtain le1 s1 where t: "attempt_turn cfg h env a le s = (NextAttempt le1, s1)"
    and na: "\<not> aborted s1" by auto
  from Suc.prems(2) have "(a + 1) + d = k" by simp
  from Suc.IH[OF na this, of le1] t ak lt show ?case
    by (subst retry_loop.simps) simp
qed

text \<open>
  C2. Take a run in which attempts \<open>0\<close> to \<open>k\<close> each end in a way that calls for
  another attempt, one more attempt is left, and the caller's signal has not fired
  before the wait that follows attempt \<open>k\<close>. When the signal fires during that wait,
  the wait is cut short and is the last thing the call does: attempt \<open>k + 1\<close> makes no
  underlying call (\<open>k + 1\<close> calls in all), \<open>enhancedFetch\<close> throws the AbortError, and no
  error popup is shown. (By \<open>wait_abandoned_is_last\<close>, a wait is cut short in no other
  run.)
\<close>

theorem wait_abandoned_aborts:
  assumes "enabled cfg" and "shouldIntercept cfg h url"
    and "k < maxRetries cfg"
    and "\<forall>j\<le>k. retryable_outcome cfg h (originalFetch env j)"
    and "signal_quiet_until_wait env k"
    and "signal_fires_in_wait env k"
  shows "fst (enhancedFetch cfg h env url) = Inl AbortError \<and>
         WaitAbandoned k (calculateDelay cfg k) \<in> set (trace (snd (enhancedFetch cfg h env url))) \<and>
         last (trace (snd (enhancedFetch cfg h env url))) = WaitAbandoned k (calculateDelay cfg k) \<and>
         calls (trace (snd (enhancedFetch cfg h env url))) = k + 1 \<and>
         Fetch (k + 1) \<notin> set (trace (snd (enhancedFetch cfg h env url))) \<and>
         (\<forall>e\<in>set (trace (snd (enhancedFetch cfg h env url))). \<not> is_error_popup e)"
proof -
  from assms(5) obtain g where sg: "signal env = Some g" and n0: "\<not> aborted_at_call g"
    and qa: "\<forall>j\<le>k. \<not> abort_fires g (InAttempt j)"
    and qd: "\<forall>j<k. \<not> abort_fires g (InDelay j)"
    by (auto simp: signal_quiet_until_wait_def split: option.splits)
  from assms(6) sg have fd: "abort_fires g (InDelay k)"
    by (simp add: signal_fires_in_wait_def)
  have run: "enhancedFetch cfg h env url = retry_loop cfg h env 0 None (initial_state env)"
    using assms(1,2) by (simp add: enhancedFetch_def)
  have na: "\<not> aborted (initial_state env)"
    using sg n0 by (simp add: initial_state_def)
  have "WaitAbandoned k (calculateDelay cfg k)
          \<in> set (trace (snd (retry_loop cfg h env 0 None (initial_state env))))"
    using retry_loop_reaches_wait[OF sg qa qd fd assms(3,4) na, of 0 k None] by simp
  then have m: "WaitAbandoned k (calculateDelay cfg k)
          \<in> set (trace (snd (enhancedFetch cfg h env url)))"
    by (simp add: run)
  from wait_abandoned_is_last[OF m] m show ?thesis by simp
qed

theorem wait_abandoned_aborts_witness:
  "fst (enhancedFetch example_settings example_host cancel_in_wait_env example_url) = Inl AbortError \<and>
   last (trace (snd (enhancedFetch example_settings example_host cancel_in_wait_env example_url)))
     = WaitAbandoned 1 1000 \<and>
   calls (trace (snd (enhancedFetch example_settings example_host cancel_in_wait_env example_url)))
     = 2 \<and>
   fst (enhancedFetch example_settings example_host cancel_after_failure_env example_url)
     = Inl AbortError \<and>
   last (trace (snd (enhancedFetch example_settings example_host cancel_after_failure_env
     example_url))) = WaitAbandoned 0 1000 \<and>
   calls (trace (snd (enhancedFetch example_settings example_host cancel_after_failure_env
     example_url))) = 1"
proof -
  have 1: "enabled example_settings"
    by (simp add: example_settings_def DEFAULT_SETTINGS_def)
  have 2: "shouldIntercept example_settings example_host example_url"
    by code_simp
  have 3: "1 < maxRetries example_settings" "0 < maxRetries example_settings"
    by (simp_all add: example_settings_def)
  have "retryable_outcome example_settings example_host (Resolves blank_response)"
    by code_simp
  then have 4: "\<forall>j\<le>1. retryable_outcome example_settings example_host
      (originalFetch cancel_in_wait_env j)"
    by (simp add: cancel_in_wait_env_def)
  have "retryable_outcome example_settings example_host (Resolves overloaded_response)"
    by code_simp
  then have 5: "\<forall>j\<le>0. retryable_outcome example_settings example_host
      (originalFetch cancel_after_failure_env j)"
    by (simp add: cancel_after_failure_env_def)
  have 6: "signal_quiet_until_wait cancel_in_wait_env 1"
    "signal_quiet_until_wait cancel_after_failure_env 0"
    by (simp_all add: signal_quiet_until_wait_def cancel_in_wait_env_def
        cancel_after_failure_env_def)
  have 7: "signal_fires_in_wait cancel_in_wait_env 1"
    "signal_fires_in_wait cancel_after_failure_env 0"
    by (simp_all add: signal_fires_in_wait_def cancel_in_wait_env_def
        cancel_after_failure_env_def)
  have 8: "calculateDelay example_settings k = 1000" for k
    by (simp add: calculateDelay_def example_settings_def DEFAULT_SETTINGS_def)
  note a = wait_abandoned_aborts[OF 1 2 3(1) 4 6(1) 7(1), unfolded 8]
  note b = wait_abandoned_aborts[OF 1 2 3(2) 5 6(2) 7(2), unfolded 8]
  from a have a1: "fst (enhancedFetch example_settings example_host cancel_in_wait_env example_url)
      = Inl AbortError" by (rule conjunct1)
  from a have a2: "last (trace (snd (enhancedFetch example_settings example_host
      cancel_in_wait_env example_url))) = WaitAbandoned 1 1000"
    by (rule conjunct2[THEN conjunct2, THEN conjunct1])
  from a have a3: "calls (trace (snd (enhancedFetch example_settings example_host
      cancel_in_wait_env example_url))) = 1 + 1"
    by (rule conjunct2[THEN conjunct2, THEN conjunct2, THEN conjunct1])
  from b have b1: "fst (enhancedFetch example_settings example_host cancel_after_failure_env
      example_url) = Inl AbortError" by (rule conjunct1)
  from b have b2: "last (trace (snd (enhancedFetch example_settings example_host
      cancel_after_failure_env example_url))) = WaitAbandoned 0 1000"
    by (rule conjunct2[THEN conjunct2, THEN conjunct1])
  from b have b3: "calls (trace (snd (enhancedFetch example_settings example_host
      cancel_after_failure_env example_url))) = 0 + 1"
    by (rule conjunct2[THEN conjunct2, THEN conjunct2, THEN conjunct1])
  from a3 have a3': "calls (trace (snd (enhancedFetch example_settings example_host
      cancel_in_wait_env example_url))) = 2" by simp
  from b3 have b3': "calls (trace (snd (enhancedFetch example_settings example_host
      cancel_after_failure_env example_url))) = 1" by simp
  from a1 a2 a3' b1 b2 b3' show ?thesis by (intro conjI)
qed

subsection \<open>A body that cannot be read\<close>

lemma retry_loop_unreadable:
  "retry_loop cfg h env a le s = (res, s') \<Longrightarrow>
   Fetch k \<in> set (trace s') \<Longrightarrow>
   originalFetch env k = Resolves r \<Longrightarrow> ok r \<Longrightarrow> body r = Inl e0 \<Longrightarrow>
   a \<le> k \<Longrightarrow> calls (trace s) = a \<Longrightarrow>
   \<forall>e\<in>set (trace s). (is_Fetch e \<longrightarrow> (\<exists>j<a. e = Fetch j)) \<and>
       (a \<le> maxRetries cfg \<longrightarrow> \<not> is_error_popup e) \<Longrightarrow>
   res = Inr r \<and> last (trace s') = Fetch k \<and> calls (trace s') = k + 1 \<and>
   (\<forall>e\<in>set (trace s'). \<not> is_error_popup e)"
proof (induction cfg h env a le s rule: retry_loop.induct)
  case (1 cfg h env attempt lastError s)
  note run = "1.prems"(1) and fk = "1.prems"(2) and resp = "1.prems"(3-5)
    and le = "1.prems"(6) and cs = "1.prems"(7) and inv = "1.prems"(8)
  from inv le have old: "Fetch k \<notin> set (trace s)" by auto
  show ?case
  proof (cases "attempt \<le> maxRetries cfg")
    case False
    with run have "s' = snd (after_loop lastError s)"
      by (subst (asm) retry_loop.simps) auto
    with fk after_loop_trace[of "Fetch k" lastError s] old
    show ?thesis by auto
  next
    case True
    obtain t s1 where turn: "attempt_turn cfg h env attempt lastError s = (t, s1)"
      by (cases "attempt_turn cfg h env attempt lastError s")
    show ?thesis
    proof (cases t)
      case (Finished r1)
      with True turn run have eq: "res = r1" "s' = s1"
        by (subst (asm) retry_loop.simps, simp)+
      have na: "\<not> aborted s"
      proof
        assume "aborted s"
        from attempt_turn_aborted[OF this, of cfg h env attempt lastError] turn eq fk old
        show False by simp
      qed
      from attempt_turn_fetches[OF turn, of "Fetch k"] fk eq old
      have ka: "k = attempt" by auto
      from attempt_turn_unreadable[OF na resp(1)[unfolded ka] resp(2,3), where cfg=cfg and h=h and le=lastError] turn
      have t: "t = Finished (Inr r)"
        and s1: "s1 = suspend env (InAttempt attempt) (emit (Fetch attempt) s)"
        by simp_all
      from t Finished eq s1 ka cs inv True show ?thesis by auto
    next
      case (NextAttempt le1)
      with True turn run have run1: "retry_loop cfg h env (attempt + 1) le1 s1 = (res, s')"
        by (subst (asm) retry_loop.simps) simp
      have ne: "k \<noteq> attempt"
      proof
        assume ka: "k = attempt"
        have na: "\<not> aborted s"
          using attempt_turn_aborted[of s cfg h env attempt lastError] turn NextAttempt by auto
        from attempt_turn_unreadable[OF na resp(1)[unfolded ka] resp(2,3), where cfg=cfg and h=h and le=lastError]
          turn NextAttempt
        show False by simp
      qed
      with le have le1: "attempt + 1 \<le> k" by simp
      have c1: "calls (trace s1) = attempt + 1"
        using attempt_turn_next_calls[OF turn[unfolded NextAttempt]] cs by simp
      have inv1: "\<forall>e\<in>set (trace s1).
          (is_Fetch e \<longrightarrow> (\<exists>j<attempt + 1. e = Fetch j)) \<and>
          (attempt + 1 \<le> maxRetries cfg \<longrightarrow> \<not> is_error_popup e)"
      proof (intro ballI conjI impI)
        fix e assume e: "e \<in> set (trace s1)"
        show "\<exists>j<attempt + 1. e = Fetch j" if "is_Fetch e"
          using attempt_turn_fetches[OF turn e that] inv that by (auto simp: less_Suc_eq)
        show "\<not> is_error_popup e" if "attempt + 1 \<le> maxRetries cfg"
        proof
          assume p: "is_error_popup e"
          from attempt_turn_popup[OF turn e p] p inv that show False by auto
        qed
      qed
      from "1.IH"[OF True turn[symmetric] NextAttempt run1 fk resp le1 c1 inv1] show ?thesis .
    qed
  qed
qed

text \<open>
  C8. When the underlying call of attempt \<open>k\<close> returns a response with a success status
  whose body cannot be read, that call is the last thing \<open>enhancedFetch\<close> does: it
  returns this response, without classification, retry, toast or error popup.
\<close>

theorem unreadable_body_returned:
  assumes "Fetch k \<in> set (trace (snd (enhancedFetch cfg h env url)))"
    and "originalFetch env k = Resolves r" and "ok r" and "body r = Inl e0"
  shows "fst (enhancedFetch cfg h env url) = Inr r \<and>
         last (trace (snd (enhancedFetch cfg h env url))) = Fetch k \<and>
         calls (trace (snd (enhancedFetch cfg h env url))) = k + 1 \<and>
         (\<forall>e\<in>set (trace (snd (enhancedFetch cfg h env url))). \<not> is_error_popup e)"
proof (cases "enabled cfg \<and> shouldIntercept cfg h url")
  case False
  then have pt: "enhancedFetch cfg h env url = pass_through env (initial_state env)"
    by (auto simp: enhancedFetch_def)
  with assms(1) have "k = 0" by (simp add: pass_through_trace initial_state_def)
  with assms(2) pt show ?thesis
    by (simp add: pass_through_def initial_state_def)
next
  case True
  then have run: "enhancedFetch cfg h env url = retry_loop cfg h env 0 None (initial_state env)"
    by (simp add: enhancedFetch_def)
  obtain res s' where r: "retry_loop cfg h env 0 None (initial_state env) = (res, s')"
    by (cases "retry_loop cfg h env 0 None (initial_state env)")
  from retry_loop_unreadable[OF r _ assms(2-4)] assms(1) run r show ?thesis
    by (simp add: initial_state_def)
qed

lemma unreadable_second_run:
  "enhancedFetch example_settings example_host unreadable_second_env example_url =
     (Inr unreadable_response,
      \<lparr>aborted = False,
       trace = [Fetch 0, RetryToast 2 3 1000, Waited 0 1000, Fetch 1]\<rparr>)"
  by code_simp

theorem unreadable_body_returned_witness:
  "Fetch 1 \<in>
     set (trace (snd (enhancedFetch example_settings example_host unreadable_second_env example_url))) \<and>
   fst (enhancedFetch example_settings example_host unreadable_second_env example_url) =
     Inr unreadable_response \<and>
   last (trace (snd (enhancedFetch example_settings example_host unreadable_second_env example_url)))
     = Fetch 1"
proof -
  have 1: "Fetch 1 \<in>
     set (trace (snd (enhancedFetch example_settings example_host unreadable_second_env example_url)))"
    by (simp add: unreadable_second_run)
  have 2: "originalFetch unreadable_second_env 1 = Resolves unreadable_response"
    by (simp add: unreadable_second_env_def)
  have 3: "ok unreadable_response" by (simp add: unreadable_response_def)
  have 4: "body unreadable_response = Inl \<lparr>err_name = ''TypeError'', err_message = ''Failed to read'',
                  err_status = None, err_statusText = None, err_body = None\<rparr>"
    by (simp add: unreadable_response_def)
  from unreadable_body_returned[OF 1 2 3 4] 1 show ?thesis by simp
qed

subsection \<open>The duration of the waits\<close>








subsection \<open>A response that is not ok\<close>

lemma overloaded_try:
  "not_ok_try overloaded_response =
     \<lparr>err_name = ''Error'',
      err_message = ''HTTP 500: Internal Server Error'' @ [CHR 0x0A] @ ''overloaded'',
      err_status = Some 500, err_statusText = Some ''Internal Server Error'',
      err_body = Some ''overloaded''\<rparr>"
  by code_simp

lemma overloaded_throws:
  "not_ok_throws overloaded_response = new_Error ''HTTP 500: Internal Server Error''"
  by code_simp

lemma overloaded_run:
  "enhancedFetch example_settings example_host overloaded_env example_url =
     (Inl (new_Error ''HTTP 500: Internal Server Error''),
      \<lparr>aborted = False,
       trace = [Fetch 0, RetryToast 2 3 1000, Waited 0 1000,
                Fetch 1, RetryToast 3 3 1000, Waited 1 1000,
                Fetch 2, BuiltinErrorOf (new_Error ''HTTP 500: Internal Server Error'')]\<rparr>)"
  by code_simp

text \<open>
  C6 at a response with status 500 and the readable body \<open>overloaded\<close>: the inner
  \<open>try\<close> block throws an error that carries the status, the status text and the body;
  the \<open>catch\<close> of the same \<open>try\<close> replaces it, and the error that the attempt raises,
  and that \<open>enhancedFetch\<close> throws after its retries, has none of the three properties.
\<close>

theorem not_ok_error_drops_payload:
  "err_status (not_ok_try overloaded_response) = Some 500 \<and>
   err_statusText (not_ok_try overloaded_response) = Some ''Internal Server Error'' \<and>
   err_body (not_ok_try overloaded_response) = Some ''overloaded'' \<and>
   not_ok_throws overloaded_response = new_Error ''HTTP 500: Internal Server Error'' \<and>
   err_status (not_ok_throws overloaded_response) = None \<and>
   err_statusText (not_ok_throws overloaded_response) = None \<and>
   err_body (not_ok_throws overloaded_response) = None \<and>
   fst (enhancedFetch example_settings example_host overloaded_env example_url) =
     Inl (new_Error ''HTTP 500: Internal Server Error'')"
  by (simp add: overloaded_try overloaded_throws overloaded_run new_Error_def)

text \<open>The same holds for every response that is not ok.\<close>

lemma not_ok_throws_payload:
  "err_status (not_ok_throws r) = None \<and> err_statusText (not_ok_throws r) = None \<and>
   err_body (not_ok_throws r) = None"
  by (simp add: not_ok_throws_def not_ok_catch_def new_Error_def)

subsection \<open>The token test on a body that is not JSON\<close>

text \<open>
  C7, as amended. With \<open>enableMinTokenRetry\<close> set and a body that the length and white
  space test did not judge empty, a body that is not JSON gives no extracted text and
  raises no error; the token test then runs on the raw body, and the response is
  classified empty exactly when the token count of the raw body is below
  \<open>minTokenThreshold\<close>.
\<close>

theorem token_test_on_unparsable_body:
  assumes "enableMinTokenRetry cfg" and "\<not> isEmptyContent cfg text"
    and "JSON_parse h text = None"
  shows "extractResponseContent h text = None \<and>
         treatAsEmpty cfg h text = (getTokenCountFor h text < minTokenThreshold cfg)"
  using assms by (simp add: extractResponseContent_def treatAsEmpty_def token_test_def)

lemma hello_not_empty: "\<not> isEmptyContent example_settings ''hello world''"
  by code_simp

lemma hello_tokens: "getTokenCountFor example_host ''hello world'' = 4"
  by code_simp

theorem token_test_on_unparsable_body_witness:
  "extractResponseContent example_host ''hello world'' = None \<and>
   getTokenCountFor example_host ''hello world'' = 4 \<and>
   treatAsEmpty example_settings example_host ''hello world'' \<and>
   \<not> treatAsEmpty (example_settings\<lparr>minTokenThreshold := 4\<rparr>) example_host ''hello world''"
proof -
  have 1: "enableMinTokenRetry example_settings"
    "enableMinTokenRetry (example_settings\<lparr>minTokenThreshold := 4\<rparr>)"
    by (simp_all add: example_settings_def DEFAULT_SETTINGS_def)
  have 2: "\<not> isEmptyContent (example_settings\<lparr>minTokenThreshold := 4\<rparr>) ''hello world''"
    by code_simp
  have 3: "JSON_parse example_host ''hello world'' = None"
    by (simp add: example_host_def)
  have 4: "minTokenThreshold example_settings = 400"
    by (simp add: example_settings_def DEFAULT_SETTINGS_def)
  from token_test_on_unparsable_body[OF 1(1) hello_not_empty 3]
    token_test_on_unparsable_body[OF 1(2) 2 3] hello_tokens 4
  show ?thesis by simp
qed

text \<open>
  The claim C7 as it is written fails at the body \<open>hello world\<close> with the default
  threshold of 400 tokens: the body is not JSON, its token estimate is 4, and the token
  test classifies it empty.
\<close>

theorem unparsable_body_counterexample:
  "enableMinTokenRetry example_settings \<and>
   \<not> isEmptyContent example_settings ''hello world'' \<and>
   JSON_parse example_host ''hello world'' = None \<and>
   token_test example_settings example_host ''hello world'' \<and>
   treatAsEmpty example_settings example_host ''hello world''"
proof -
  have 5: "token_test example_settings example_host ''hello world''"
    by code_simp
  have 1: "enableMinTokenRetry example_settings"
    by (simp add: example_settings_def DEFAULT_SETTINGS_def)
  have 3: "JSON_parse example_host ''hello world'' = None"
    by (simp add: example_host_def)
  have 4: "treatAsEmpty example_settings example_host ''hello world''"
    by code_simp
  from 1 hello_not_empty 3 4 5 show ?thesis by blast
qed

end
